theory Spec2Isabelle
  imports Complex_Main
begin

section \<open>JavaScript values after \<^verbatim>\<open>JSON.parse\<close>\<close>

text \<open>
  The edge function \<^verbatim>\<open>supabase/functions/transcribe-and-analyze/index.ts\<close> works on
  the value that \<^verbatim>\<open>JSON.parse\<close> returns, typed \<^verbatim>\<open>any\<close>. Such a value is null, a
  boolean, a number, a string, an array or a plain object. An object is the list of its
  own properties in enumeration order; \<^verbatim>\<open>undefined\<close> (a property that is not there) is
  \<open>None\<close>.

  Numbers are carried as rationals. The sanitizer only asks \<^verbatim>\<open>typeof v === "number"\<close>
  and copies the value, so nothing in it depends on the carrier; the rounding of IEEE
  doubles is not modelled.
\<close>

type_synonym number = rat

datatype json =
    JNull
  | JBool bool
  | JNum number
  | JStr string
  | JArr "json list"
  | JObj "(string \<times> json) list"

type_synonym obj = "(string \<times> json) list"

datatype jstype = TUndefined | TObject | TBoolean | TNumber | TString

text \<open>\<^verbatim>\<open>typeof\<close>: null and arrays are \<^verbatim>\<open>"object"\<close>.\<close>

fun typeof :: "json option \<Rightarrow> jstype" where
  "typeof None = TUndefined"
| "typeof (Some JNull) = TObject"
| "typeof (Some (JBool b)) = TBoolean"
| "typeof (Some (JNum x)) = TNumber"
| "typeof (Some (JStr s)) = TString"
| "typeof (Some (JArr xs)) = TObject"
| "typeof (Some (JObj kvs)) = TObject"

text \<open>
  A thrown value, as the handler's \<^verbatim>\<open>catch\<close> sees it: an \<^verbatim>\<open>Error\<close> with its
  message, or something that is not an \<^verbatim>\<open>Error\<close>.
\<close>

datatype thrown = Error string | NonError

text \<open>
  Reading a property of null throws a \<^verbatim>\<open>TypeError\<close>; the message is the one V8 (the
  engine of Deno) builds.
\<close>

definition null_read :: "string \<Rightarrow> thrown" where
  "null_read k = Error (''Cannot read properties of null (reading '' @ [CHR 0x27] @ k @ [CHR 0x27] @ '')'')"

text \<open>
  \<^verbatim>\<open>v.k\<close> for a value that is not null. The handler reads only the names
  \<^verbatim>\<open>items\<close>, \<^verbatim>\<open>qty\<close>, \<^verbatim>\<open>n\<close>, \<^verbatim>\<open>cal\<close>, \<^verbatim>\<open>p\<close>, \<^verbatim>\<open>c\<close>, \<^verbatim>\<open>f\<close>, \<^verbatim>\<open>fib\<close>; none of them is a
  property of a boolean, number, string or array, nor inherited from
  \<^verbatim>\<open>Object.prototype\<close>, so only the own properties of an object answer. On a property
  list the first entry of a name is the property.
\<close>

fun get_prop :: "json \<Rightarrow> string \<Rightarrow> json option" where
  "get_prop (JObj kvs) k = map_of kvs k"
| "get_prop v k = None"

text \<open>\<^verbatim>\<open>o[k] = v\<close>: an existing property keeps its place, a new one goes last.\<close>

fun set_prop :: "string \<Rightarrow> json \<Rightarrow> obj \<Rightarrow> obj" where
  "set_prop k v [] = [(k, v)]"
| "set_prop k v ((k', v') # ps) =
     (if k' = k then (k, v) # ps else (k', v') # set_prop k v ps)"

text \<open>Array and string indices as property names are decimal numerals.\<close>

definition digit_char :: "nat \<Rightarrow> char" where
  "digit_char d = char_of (48 + d)"

fun show_nat :: "nat \<Rightarrow> string" where
  "show_nat n = (if n < 10 then [digit_char n] else show_nat (n div 10) @ [digit_char (n mod 10)])"

declare show_nat.simps [simp del]

text \<open>
  \<^verbatim>\<open>Object.entries\<close> of a value that is not null: an object's own properties, an
  array's elements and a string's characters under their indices, nothing for a
  boolean or a number.
\<close>

fun entries :: "json \<Rightarrow> (string \<times> json) list" where
  "entries (JObj kvs) = kvs"
| "entries (JArr xs) = map (\<lambda>i. (show_nat i, xs ! i)) [0..<length xs]"
| "entries (JStr s) = map (\<lambda>i. (show_nat i, JStr [s ! i])) [0..<length s]"
| "entries v = []"

section \<open>The micronutrient key pattern\<close>

text \<open>
  The handler tests keys with \<^verbatim>\<open>/^[a-z]{1,4}_(mg|mcg|iu|g|mgdL|mmolL)$/i\<close>. The
  pattern is kept as a term and run by a backtracking matcher.

  Characters are bytes. Without the \<^verbatim>\<open>u\<close> flag the \<^verbatim>\<open>i\<close> flag compares characters
  after \<^verbatim>\<open>Canonicalize\<close>, which upper-cases a character but never maps a character
  outside ASCII to one inside, so on the bytes of a UTF-8 string it acts on the ASCII
  letters only.
\<close>

definition is_lower :: "char \<Rightarrow> bool" where
  "is_lower c = (97 \<le> (of_char c :: nat) \<and> (of_char c :: nat) \<le> 122)"

definition is_upper :: "char \<Rightarrow> bool" where
  "is_upper c = (65 \<le> (of_char c :: nat) \<and> (of_char c :: nat) \<le> 90)"

definition to_upper :: "char \<Rightarrow> char" where
  "to_upper c = (if is_lower c then char_of ((of_char c :: nat) - 32) else c)"

definition to_lower :: "char \<Rightarrow> char" where
  "to_lower c = (if is_upper c then char_of ((of_char c :: nat) + 32) else c)"

definition canonicalize :: "bool \<Rightarrow> char \<Rightarrow> char" where
  "canonicalize ignoreCase c = (if ignoreCase then to_upper c else c)"

datatype regex =
    Lit string
  | Range char char
  | Rep regex nat nat
  | Cat regex regex
  | Alt regex regex

text \<open>
  A class \<^verbatim>\<open>[lo-hi]\<close> holds a character when some member of the class has the same
  canonical form: the character itself or, with \<^verbatim>\<open>i\<close>, one of its two case variants.
\<close>

definition in_range :: "char \<Rightarrow> char \<Rightarrow> char \<Rightarrow> bool" where
  "in_range lo hi c = ((of_char lo :: nat) \<le> of_char c \<and> (of_char c :: nat) \<le> of_char hi)"

definition class_matches :: "bool \<Rightarrow> char \<Rightarrow> char \<Rightarrow> char \<Rightarrow> bool" where
  "class_matches ignoreCase lo hi c =
     (in_range lo hi c \<or> (ignoreCase \<and> (in_range lo hi (to_lower c) \<or> in_range lo hi (to_upper c))))"

text \<open>\<open>rx_times m n s\<close>: every way to run the matcher \<open>m\<close> exactly \<open>n\<close> times from \<open>s\<close>.\<close>

fun rx_times :: "(string \<Rightarrow> string list) \<Rightarrow> nat \<Rightarrow> string \<Rightarrow> string list" where
  "rx_times m 0 s = [s]"
| "rx_times m (Suc n) s = concat (map (rx_times m n) (m s))"

text \<open>
  \<open>rx_match i r s\<close> lists, in the order a backtracking engine tries them, what is left
  of \<open>s\<close> after each way of matching \<open>r\<close> at its start. A quantifier is greedy: the
  larger count first.
\<close>

fun rx_match :: "bool \<Rightarrow> regex \<Rightarrow> string \<Rightarrow> string list" where
  "rx_match i (Lit l) s =
     (if map (canonicalize i) (take (length l) s) = map (canonicalize i) l
      then [drop (length l) s] else [])"
| "rx_match i (Range lo hi) s =
     (case s of [] \<Rightarrow> [] | c # cs \<Rightarrow> if class_matches i lo hi c then [cs] else [])"
| "rx_match i (Rep r lo hi) s =
     concat (map (\<lambda>n. rx_times (rx_match i r) n s) (rev [lo..<Suc hi]))"
| "rx_match i (Cat r1 r2) s = concat (map (rx_match i r2) (rx_match i r1 s))"
| "rx_match i (Alt r1 r2) s = rx_match i r1 s @ rx_match i r2 s"

text \<open>\<^verbatim>\<open>/^r$/.test(s)\<close>: some way of matching \<open>r\<close> from the start uses all of \<open>s\<close>.\<close>

definition rx_test :: "bool \<Rightarrow> regex \<Rightarrow> string \<Rightarrow> bool" where
  "rx_test i r s = ([] \<in> set (rx_match i r s))"

definition UNIT_ALT :: regex where
  "UNIT_ALT = Alt (Lit ''mg'') (Alt (Lit ''mcg'') (Alt (Lit ''iu'') (Alt (Lit ''g'')
                (Alt (Lit ''mgdL'') (Lit ''mmolL'')))))"

definition MICRO_RE :: regex where
  "MICRO_RE = Cat (Rep (Range CHR ''a'' CHR ''z'') 1 4) (Cat (Lit ''_'') UNIT_ALT)"

definition micro_test :: "string \<Rightarrow> bool" where
  "micro_test k = rx_test True MICRO_RE k"

section \<open>The sanitize step\<close>

definition KNOWN_KEYS :: "string list" where
  "KNOWN_KEYS = [''qty'', ''n'', ''cal'', ''p'', ''c'', ''f'', ''fib'']"

text \<open>\<^verbatim>\<open>if (typeof item.k === "t") cleaned.k = item.k;\<close>\<close>

definition copy_known :: "jstype \<Rightarrow> string \<Rightarrow> json \<Rightarrow> obj \<Rightarrow> obj" where
  "copy_known t k item cleaned =
     (case get_prop item k of
        None \<Rightarrow> cleaned
      | Some v \<Rightarrow> if typeof (Some v) = t then set_prop k v cleaned else cleaned)"

definition known_copies :: "json \<Rightarrow> obj" where
  "known_copies item =
     copy_known TNumber ''fib'' item
       (copy_known TNumber ''f'' item
         (copy_known TNumber ''c'' item
           (copy_known TNumber ''p'' item
             (copy_known TNumber ''cal'' item
               (copy_known TString ''n'' item
                 (copy_known TString ''qty'' item []))))))"

text \<open>The loop over \<^verbatim>\<open>Object.entries(item)\<close>, from the entries left and the object so far.\<close>

fun copy_micronutrients :: "(string \<times> json) list \<Rightarrow> obj \<Rightarrow> obj" where
  "copy_micronutrients [] cleaned = cleaned"
| "copy_micronutrients ((k, v) # es) cleaned =
     copy_micronutrients es
       (if k \<notin> set KNOWN_KEYS \<and> typeof (Some v) = TNumber \<and> micro_test k
        then set_prop k v cleaned else cleaned)"

text \<open>
  The callback of \<^verbatim>\<open>parsed.items.map\<close>. Its first statement reads \<^verbatim>\<open>item.qty\<close>, which
  throws when the item is null; on every other value the callback returns.
\<close>

definition clean_item :: "json \<Rightarrow> thrown + obj" where
  "clean_item item =
     (if item = JNull then Inl (null_read ''qty'')
      else Inr (copy_micronutrients (entries item) (known_copies item)))"

text \<open>\<^verbatim>\<open>Array.prototype.map\<close> with a callback that may throw: the first throw ends it.\<close>

fun map_items :: "json list \<Rightarrow> thrown + obj list" where
  "map_items [] = Inr []"
| "map_items (item # rest) =
     (case clean_item item of
        Inl e \<Rightarrow> Inl e
      | Inr cleaned \<Rightarrow> (case map_items rest of Inl e \<Rightarrow> Inl e | Inr cs \<Rightarrow> Inr (cleaned # cs)))"

text \<open>
  The \<^verbatim>\<open>items\<close> of \<^verbatim>\<open>result\<close>: \<^verbatim>\<open>parsed.items\<close> throws on a null \<^verbatim>\<open>parsed\<close>; a value that
  is not an array gives the empty list.
\<close>

definition sanitize :: "json \<Rightarrow> thrown + obj list" where
  "sanitize parsed =
     (if parsed = JNull then Inl (null_read ''items'')
      else case get_prop parsed ''items'' of
             Some (JArr items) \<Rightarrow> map_items items
           | _ \<Rightarrow> Inr [])"

section \<open>The request handler\<close>

text \<open>
  What the handler receives and what it calls. A blob is its bytes. \<^verbatim>\<open>FormData.get\<close>
  returns a string, a \<^verbatim>\<open>File\<close> (which is a \<^verbatim>\<open>Blob\<close>) or null; \<^verbatim>\<open>req.formData()\<close>
  rejects when the body is not a well-formed form. The response headers are the fixed
  CORS headers (and the JSON content type) and are left out; the body is the value
  handed to \<^verbatim>\<open>JSON.stringify\<close>, or \<open>None\<close> for the null body.
\<close>

type_synonym blob = string

datatype form_value = FText string | FFile blob

record request =
  req_method :: string
  req_content_type :: "string option"
  req_formData :: "thrown + (string \<times> form_value) list"

text \<open>
  The surroundings: the environment variable, the two calls to the OpenAI client
  (each either throws or returns the text it produced, if any) and \<^verbatim>\<open>JSON.parse\<close>,
  which is \<open>None\<close> where it throws. The chat call is given by its user prompt;
  the system prompt, model and temperature are constants of the call.
\<close>

record env =
  OPENAI_API_KEY :: "string option"
  transcriptions_create :: "blob \<Rightarrow> thrown + string option"
  chat_completions_create :: "string \<Rightarrow> thrown + string option"
  JSON_parse :: "string \<Rightarrow> json option"

datatype call = Transcription blob | ChatCompletion string

record response =
  res_status :: nat
  res_body :: "json option"

text \<open>\<^verbatim>\<open>x || d\<close> on a string that may be null or undefined: the empty string is falsy too.\<close>

definition or_else :: "string option \<Rightarrow> string \<Rightarrow> string" where
  "or_else x d = (case x of None \<Rightarrow> d | Some s \<Rightarrow> if s = [] then d else s)"

text \<open>\<^verbatim>\<open>String.prototype.includes\<close>\<close>

fun str_includes :: "string \<Rightarrow> string \<Rightarrow> bool" where
  "str_includes [] sub = (sub = [])"
| "str_includes (c # cs) sub = (take (length sub) (c # cs) = sub \<or> str_includes cs sub)"

definition error_response :: "nat \<Rightarrow> string \<Rightarrow> response" where
  "error_response st message =
     \<lparr>res_status = st, res_body = Some (JObj [(''error'', JStr message)])\<rparr>"

text \<open>The \<^verbatim>\<open>catch\<close> block of the handler.\<close>

definition catch_handler :: "thrown \<Rightarrow> response" where
  "catch_handler error =
     error_response 500 (case error of Error message \<Rightarrow> message | NonError \<Rightarrow> ''Unknown error'')"

definition NOT_MULTIPART :: string where
  "NOT_MULTIPART = ''Expected multipart/form-data with a '' @ [CHR 0x27] @ ''file'' @ [CHR 0x27] @ '' field''"

definition NO_FILE :: string where
  "NO_FILE = ''No audio file provided under '' @ [CHR 0x27] @ ''file'' @ [CHR 0x27]"

definition userPrompt :: "string \<Rightarrow> string" where
  "userPrompt transcribedText =
     ''Transcribed meal description:'' @ [CHR 0x0A, CHR 0x0A] @ transcribedText"

definition EMPTY_ITEMS :: string where
  "EMPTY_ITEMS = ''{'' @ [CHR 0x22] @ ''items'' @ [CHR 0x22] @ '': []}''"

text \<open>
  Lines 98 to 135: parse the completion, falling back to \<^verbatim>\<open>{ items: [] }\<close>, clean it
  and answer; a throw while cleaning goes to the \<^verbatim>\<open>catch\<close> block.
\<close>

definition parse_or_empty :: "env \<Rightarrow> string \<Rightarrow> json" where
  "parse_or_empty e raw =
     (case JSON_parse e raw of None \<Rightarrow> JObj [(''items'', JArr [])] | Some parsed \<Rightarrow> parsed)"

definition respond :: "env \<Rightarrow> string \<Rightarrow> response" where
  "respond e raw =
     (case sanitize (parse_or_empty e raw) of
        Inl error \<Rightarrow> catch_handler error
      | Inr items \<Rightarrow>
          \<lparr>res_status = 200, res_body = Some (JObj [(''items'', JArr (map JObj items))])\<rparr>)"

text \<open>
  Lines 46 to 98: the two upstream calls for a file, with the calls made; the result is
  the string \<^verbatim>\<open>raw\<close> or what a call threw.
\<close>

definition upstream :: "env \<Rightarrow> blob \<Rightarrow> (thrown + string) \<times> call list" where
  "upstream e file =
     (case transcriptions_create e file of
        Inl error \<Rightarrow> (Inl error, [Transcription file])
      | Inr text \<Rightarrow>
          (let prompt = userPrompt (or_else text [])
           in case chat_completions_create e prompt of
                Inl error \<Rightarrow> (Inl error, [Transcription file, ChatCompletion prompt])
              | Inr content \<Rightarrow>
                  (Inr (or_else content EMPTY_ITEMS), [Transcription file, ChatCompletion prompt])))"

text \<open>The handler given to \<^verbatim>\<open>serve\<close>: the response and the upstream calls it made.\<close>

definition serve :: "env \<Rightarrow> request \<Rightarrow> response \<times> call list" where
  "serve e req =
     (if req_method req = ''OPTIONS'' then (\<lparr>res_status = 200, res_body = None\<rparr>, [])
      else if or_else (OPENAI_API_KEY e) [] = []
        then (catch_handler (Error ''OPENAI_API_KEY is not set''), [])
      else if \<not> str_includes (or_else (req_content_type req) []) ''multipart/form-data''
        then (error_response 400 NOT_MULTIPART, [])
      else case req_formData req of
        Inl error \<Rightarrow> (catch_handler error, [])
      | Inr formData \<Rightarrow>
          (case map_of formData ''file'' of
             Some (FFile file) \<Rightarrow>
               (case upstream e file of
                  (Inl error, calls) \<Rightarrow> (catch_handler error, calls)
                | (Inr raw, calls) \<Rightarrow> (respond e raw, calls))
           | _ \<Rightarrow> (error_response 400 NO_FILE, [])))"

section \<open>Meal totals\<close>

text \<open>
  \<^verbatim>\<open>computeTotals\<close> of the confirmation modal adds JavaScript numbers, which are IEEE
  754 binary64 values: a finite value (a rational \<open>m * 2 ^ e\<close> with \<open>\<bar>m\<bar> < 2 ^ 53\<close> and
  \<open>- 1074 \<le> e \<le> 971\<close>; \<open>Finite 0\<close> is the positive zero), the negative zero, the two
  infinities and NaN.
\<close>

datatype double = Finite rat | NegZero | PosInf | NegInf | NaN

definition pow2 :: "int \<Rightarrow> rat" where
  "pow2 e = (if 0 \<le> e then 2 ^ nat e else 1 / 2 ^ nat (- e))"

function bit_length :: "int \<Rightarrow> int" where
  "bit_length n = (if n \<le> 0 then 0 else 1 + bit_length (n div 2))"
  by auto
termination
  by (relation "measure nat") auto

declare bit_length.simps [simp del]

text \<open>The exponent of the leading binary digit of a rational that is not zero.\<close>

definition floor_log2 :: "rat \<Rightarrow> int" where
  "floor_log2 x =
     (let (p, q) = quotient_of \<bar>x\<bar>;
          d = bit_length p - bit_length q
      in if pow2 d \<le> \<bar>x\<bar> then d else d - 1)"

definition round_half_even :: "rat \<Rightarrow> int" where
  "round_half_even q =
     (let f = \<lfloor>q\<rfloor>; r = q - of_int f
      in if r < 1 / 2 then f else if 1 / 2 < r then f + 1 else if even f then f else f + 1)"

text \<open>
  Rounding an exact result to binary64, to nearest with ties to even: 53 significant
  bits, spacing \<open>2 ^ - 1074\<close> for subnormal values, an infinity from \<open>2 ^ 1024\<close> on.
\<close>

definition round_double :: "rat \<Rightarrow> double" where
  "round_double x =
     (if x = 0 then Finite 0
      else let e = max (floor_log2 x) (- 1022);
               ulp = pow2 (e - 52);
               y = of_int (round_half_even (x / ulp)) * ulp
           in if pow2 1024 \<le> \<bar>y\<bar> then (if 0 < x then PosInf else NegInf)
              else if y = 0 then (if 0 < x then Finite 0 else NegZero)
              else Finite y)"

text \<open>The \<^verbatim>\<open>+\<close> of two numbers.\<close>

fun dadd :: "double \<Rightarrow> double \<Rightarrow> double" where
  "dadd NaN y = NaN"
| "dadd x NaN = NaN"
| "dadd PosInf NegInf = NaN"
| "dadd NegInf PosInf = NaN"
| "dadd PosInf y = PosInf"
| "dadd x PosInf = PosInf"
| "dadd NegInf y = NegInf"
| "dadd x NegInf = NegInf"
| "dadd NegZero y = y"
| "dadd x NegZero = x"
| "dadd (Finite a) (Finite b) = round_double (a + b)"

text \<open>
  A \<^verbatim>\<open>TokenItem\<close>: two strings, five optional numbers and, by the index signature,
  further properties holding a string or a number, here in enumeration order.
\<close>

datatype token_value = TStr string | TNum double

record TokenItem =
  item_qty :: string
  item_n :: string
  item_cal :: "double option"
  item_p :: "double option"
  item_c :: "double option"
  item_f :: "double option"
  item_fib :: "double option"
  item_others :: "(string \<times> token_value) list"

text \<open>
  The accumulator of the \<^verbatim>\<open>reduce\<close>. Its \<^verbatim>\<open>micronutrients\<close> object is kept abstract:
  the statement \<^verbatim>\<open>acc.micronutrients[k] = (acc.micronutrients[k] || 0) + v\<close> reads
  through the prototype of a plain object and may store a string, which is not
  modelled. It is a parameter \<open>assign k v\<close> acting on that object alone; it cannot
  throw and cannot reach the five macro fields.
\<close>

record 'm Totals =
  total_calories :: double
  protein :: double
  carbs :: double
  fat :: double
  fiber :: double
  micronutrients :: 'm

text \<open>
  \<^verbatim>\<open>Number(x || 0)\<close> for a number that may be undefined: both zeros and NaN are falsy.
\<close>

definition number_or_0 :: "double option \<Rightarrow> double" where
  "number_or_0 x =
     (case x of
        None \<Rightarrow> Finite 0
      | Some v \<Rightarrow> if v = Finite 0 \<or> v = NegZero \<or> v = NaN then Finite 0 else v)"

definition optional_entry :: "string \<Rightarrow> double option \<Rightarrow> (string \<times> token_value) list" where
  "optional_entry k x = (case x of None \<Rightarrow> [] | Some v \<Rightarrow> [(k, TNum v)])"

text \<open>
  \<^verbatim>\<open>Object.entries(it)\<close>. Where the known keys stand among the others does not matter
  to the loop, which skips them.
\<close>

definition token_entries :: "TokenItem \<Rightarrow> (string \<times> token_value) list" where
  "token_entries it =
     [(''qty'', TStr (item_qty it)), (''n'', TStr (item_n it))]
     @ optional_entry ''cal'' (item_cal it) @ optional_entry ''p'' (item_p it)
     @ optional_entry ''c'' (item_c it) @ optional_entry ''f'' (item_f it)
     @ optional_entry ''fib'' (item_fib it) @ item_others it"

text \<open>The inner loop over the entries, with its guard.\<close>

fun aggregate :: "(string \<Rightarrow> double \<Rightarrow> 'm \<Rightarrow> 'm) \<Rightarrow> (string \<times> token_value) list \<Rightarrow> 'm \<Rightarrow> 'm" where
  "aggregate assign [] m = m"
| "aggregate assign ((k, TNum v) # es) m =
     aggregate assign es (if k \<notin> set KNOWN_KEYS then assign k v m else m)"
| "aggregate assign ((k, TStr s) # es) m = aggregate assign es m"

definition add_item :: "(string \<Rightarrow> double \<Rightarrow> 'm \<Rightarrow> 'm) \<Rightarrow> 'm Totals \<Rightarrow> TokenItem \<Rightarrow> 'm Totals" where
  "add_item assign acc it =
     \<lparr>total_calories = dadd (total_calories acc) (number_or_0 (item_cal it)),
      protein = dadd (protein acc) (number_or_0 (item_p it)),
      carbs = dadd (carbs acc) (number_or_0 (item_c it)),
      fat = dadd (fat acc) (number_or_0 (item_f it)),
      fiber = dadd (fiber acc) (number_or_0 (item_fib it)),
      micronutrients = aggregate assign (token_entries it) (micronutrients acc)\<rparr>"

text \<open>\<open>object\<close> is the object \<^verbatim>\<open>{}\<close> the reduction starts with.\<close>

definition computeTotals :: "(string \<Rightarrow> double \<Rightarrow> 'm \<Rightarrow> 'm) \<Rightarrow> 'm \<Rightarrow> TokenItem list \<Rightarrow> 'm Totals" where
  "computeTotals assign object list =
     foldl (add_item assign)
       \<lparr>total_calories = Finite 0, protein = Finite 0, carbs = Finite 0, fat = Finite 0,
        fiber = Finite 0, micronutrients = object\<rparr> list"

section \<open>Notions used to state the properties\<close>

text \<open>
  The words a pattern matches, as a set: \<open>lang_pow A n\<close> is \<open>n\<close> words of \<open>A\<close> in a
  row. The matcher above is shown to compute exactly this.
\<close>

definition is_letter :: "char \<Rightarrow> bool" where
  "is_letter c = (is_lower c \<or> is_upper c)"

definition UNIT_TOKENS :: "string list" where
  "UNIT_TOKENS = [''mg'', ''mcg'', ''iu'', ''g'', ''mgdL'', ''mmolL'']"

fun lang_pow :: "string set \<Rightarrow> nat \<Rightarrow> string set" where
  "lang_pow A 0 = {[]}"
| "lang_pow A (Suc n) = {a @ b | a b. a \<in> A \<and> b \<in> lang_pow A n}"

fun lang :: "bool \<Rightarrow> regex \<Rightarrow> string set" where
  "lang i (Lit l) = {w. map (canonicalize i) w = map (canonicalize i) l}"
| "lang i (Range lo hi) = {[c] | c. class_matches i lo hi c}"
| "lang i (Rep r lo hi) = (\<Union>n \<in> {lo..hi}. lang_pow (lang i r) n)"
| "lang i (Cat r1 r2) = {a @ b | a b. a \<in> lang i r1 \<and> b \<in> lang i r2}"
| "lang i (Alt r1 r2) = lang i r1 \<union> lang i r2"

text \<open>
  The rationals that are binary64 values: zero, or below \<open>2 ^ 1024\<close> in magnitude and a
  whole multiple of the spacing at their exponent.
\<close>

definition is_double :: "rat \<Rightarrow> bool" where
  "is_double x =
     (x = 0 \<or> (\<bar>x\<bar> < pow2 1024
        \<and> (let q = x / pow2 (max (floor_log2 x) (- 1022) - 52) in of_int \<lfloor>q\<rfloor> = q)))"

text \<open>
  A field the sanitizer may emit: a known key with the type its schema declares, or a
  key the pattern accepts with a number.
\<close>

definition field_ok :: "string \<Rightarrow> json \<Rightarrow> bool" where
  "field_ok k v =
     ((k \<in> {''qty'', ''n''} \<and> typeof (Some v) = TString)
      \<or> (k \<in> {''cal'', ''p'', ''c'', ''f'', ''fib''} \<and> typeof (Some v) = TNumber)
      \<or> (micro_test k \<and> typeof (Some v) = TNumber))"

definition fields_ok :: "obj \<Rightarrow> bool" where
  "fields_ok cleaned = list_all (\<lambda>(k, v). field_ok k v) cleaned"

text \<open>The type the schema in the system prompt declares for a known key.\<close>

definition declared_type :: "string \<Rightarrow> jstype" where
  "declared_type k = (if k \<in> {''qty'', ''n''} then TString else TNumber)"

text \<open>
  The micronutrient key as the specification's data model words it: one to four
  lower-case letters, an underscore, one of the unit tokens as written.
\<close>

definition spec_micro_key :: "string \<Rightarrow> bool" where
  "spec_micro_key k =
     (let abbr = takeWhile (\<lambda>c. c \<noteq> CHR ''_'') k; unit = drop (Suc (length abbr)) k
      in 1 \<le> length abbr \<and> length abbr \<le> 4 \<and> list_all is_lower abbr
         \<and> length abbr < length k \<and> unit \<in> set UNIT_TOKENS)"

section \<open>The pattern matcher computes the pattern's language\<close>

lemma rx_times_set:
  assumes "\<And>s. set (m s) = {t. \<exists>a \<in> A. s = a @ t}"
  shows "set (rx_times m n s) = {t. \<exists>w \<in> lang_pow A n. s = w @ t}"
proof (induction n arbitrary: s)
  case 0
  then show ?case by auto
next
  case (Suc n)
  show ?case
  proof (rule set_eqI, rule iffI)
    fix t assume "t \<in> set (rx_times m (Suc n) s)"
    then obtain u where u: "u \<in> set (m s)" and t: "t \<in> set (rx_times m n u)" by auto
    from u assms obtain a where a: "a \<in> A" "s = a @ u" by auto
    from t Suc.IH obtain w where w: "w \<in> lang_pow A n" "u = w @ t" by auto
    from a w have "a @ w \<in> lang_pow A (Suc n)" "s = (a @ w) @ t" by auto
    then show "t \<in> {t. \<exists>w \<in> lang_pow A (Suc n). s = w @ t}" by blast
  next
    fix t assume "t \<in> {t. \<exists>w \<in> lang_pow A (Suc n). s = w @ t}"
    then obtain a b where ab: "a \<in> A" "b \<in> lang_pow A n" "s = (a @ b) @ t" by auto
    then have "b @ t \<in> set (m s)" using assms by auto
    moreover have "t \<in> set (rx_times m n (b @ t))" using Suc.IH ab(2) by auto
    ultimately show "t \<in> set (rx_times m (Suc n) s)" by auto
  qed
qed

lemma rx_match_set: "set (rx_match i r s) = {t. \<exists>w \<in> lang i r. s = w @ t}"
proof (induction r arbitrary: s)
  case (Lit l)
  show ?case
  proof (rule set_eqI, rule iffI)
    fix t assume "t \<in> set (rx_match i (Lit l) s)"
    then have c: "map (canonicalize i) (take (length l) s) = map (canonicalize i) l"
      and t: "t = drop (length l) s" by (auto split: if_splits)
    then have "take (length l) s \<in> lang i (Lit l)" "s = take (length l) s @ t" by auto
    then show "t \<in> {t. \<exists>w \<in> lang i (Lit l). s = w @ t}" by blast
  next
    fix t assume "t \<in> {t. \<exists>w \<in> lang i (Lit l). s = w @ t}"
    then obtain w where w: "map (canonicalize i) w = map (canonicalize i) l" "s = w @ t" by auto
    from w(1) have "length w = length l" by (rule map_eq_imp_length_eq)
    with w show "t \<in> set (rx_match i (Lit l) s)" by auto
  qed
next
  case (Range lo hi)
  show ?case by (cases s) auto
next
  case (Rep r lo hi)
  have counts: "set (rev [lo..<Suc hi]) = {lo..hi}" by auto
  have "set (rx_match i (Rep r lo hi) s) = (\<Union>n \<in> {lo..hi}. set (rx_times (rx_match i r) n s))"
    unfolding rx_match.simps set_concat set_map counts by blast
  also have "\<dots> = (\<Union>n \<in> {lo..hi}. {t. \<exists>w \<in> lang_pow (lang i r) n. s = w @ t})"
    using rx_times_set [of "rx_match i r" "lang i r"] Rep.IH by simp
  also have "\<dots> = {t. \<exists>w \<in> lang i (Rep r lo hi). s = w @ t}" by auto
  finally show ?case .
next
  case (Cat r1 r2)
  show ?case
  proof (rule set_eqI, rule iffI)
    fix t assume "t \<in> set (rx_match i (Cat r1 r2) s)"
    then obtain u where u: "u \<in> set (rx_match i r1 s)" and t: "t \<in> set (rx_match i r2 u)" by auto
    from u Cat.IH(1) obtain a where a: "a \<in> lang i r1" "s = a @ u" by auto
    from t Cat.IH(2) obtain b where b: "b \<in> lang i r2" "u = b @ t" by auto
    from a b have "a @ b \<in> lang i (Cat r1 r2)" "s = (a @ b) @ t" by auto
    then show "t \<in> {t. \<exists>w \<in> lang i (Cat r1 r2). s = w @ t}" by blast
  next
    fix t assume "t \<in> {t. \<exists>w \<in> lang i (Cat r1 r2). s = w @ t}"
    then obtain a b where ab: "a \<in> lang i r1" "b \<in> lang i r2" "s = (a @ b) @ t" by auto
    then have "b @ t \<in> set (rx_match i r1 s)" using Cat.IH(1) by auto
    moreover have "t \<in> set (rx_match i r2 (b @ t))" using Cat.IH(2) ab(2) by auto
    ultimately show "t \<in> set (rx_match i (Cat r1 r2) s)" by auto
  qed
next
  case (Alt r1 r2)
  then show ?case by auto
qed

lemma rx_test_lang: "rx_test i r s \<longleftrightarrow> s \<in> lang i r"
  by (auto simp: rx_test_def rx_match_set)

lemma lang_pow_class:
  "w \<in> lang_pow {[c] | c. P c} n \<Longrightarrow> length w = n \<and> list_all P w"
  by (induction n arbitrary: w) auto

lemma class_letter: "class_matches True CHR ''a'' CHR ''z'' c \<Longrightarrow> is_letter c"
  by (auto simp: class_matches_def in_range_def is_letter_def is_lower_def is_upper_def to_lower_def to_upper_def split: if_splits)

lemma underscore_only: "map (canonicalize True) w = map (canonicalize True) ''_'' \<Longrightarrow> w = ''_''"
proof -
  assume "map (canonicalize True) w = map (canonicalize True) ''_''"
  then obtain c where w: "w = [c]" and c: "to_upper c = CHR ''_''"
    by (auto simp: canonicalize_def to_upper_def is_lower_def map_eq_Cons_conv)
  have "c = CHR ''_''"
  proof (cases "is_lower c")
    case True
    then have small: "(of_char c :: nat) - 32 < 256" and big: "(of_char c :: nat) - 32 \<le> 90"
      unfolding is_lower_def by arith+
    from True have "(of_char (to_upper c) :: nat) = (of_char c - 32) mod 256"
      by (simp add: to_upper_def)
    with small have "(of_char (to_upper c) :: nat) = of_char c - 32" by simp
    with c have "(of_char c :: nat) - 32 = 95" by simp
    with big show ?thesis by simp
  next
    case False
    with c show ?thesis by (simp add: to_upper_def)
  qed
  with w show ?thesis by simp
qed


lemma letter_class: "is_letter c \<Longrightarrow> class_matches True CHR ''a'' CHR ''z'' c"
proof -
  assume "is_letter c"
  then consider "is_lower c" | "is_upper c" by (auto simp: is_letter_def)
  then show ?thesis
  proof cases
    case 1
    then show ?thesis by (simp add: class_matches_def in_range_def is_lower_def)
  next
    case 2
    then have "(of_char c :: nat) + 32 < 256" unfolding is_upper_def by arith
    then have "(of_char (to_lower c) :: nat) = of_char c + 32"
      using 2 by (simp add: to_lower_def)
    moreover from 2 have "97 \<le> (of_char c :: nat) + 32" "(of_char c :: nat) + 32 \<le> 122"
      unfolding is_upper_def by arith+
    ultimately show ?thesis by (simp add: class_matches_def in_range_def)
  qed
qed

lemma class_lang_pow:
  "list_all P w \<Longrightarrow> w \<in> lang_pow {[c] | c. P c} (length w)"
proof (induction w)
  case Nil
  then show ?case by simp
next
  case (Cons c w)
  then have "[c] \<in> {[c] | c. P c}" "w \<in> lang_pow {[c] | c. P c} (length w)" by auto
  then have "[c] @ w \<in> lang_pow {[c] | c. P c} (Suc (length w))"
    unfolding lang_pow.simps by blast
  then show ?case by simp
qed

lemma lang_abbr:
  "lang True (Rep (Range CHR ''a'' CHR ''z'') 1 4) = {w. 1 \<le> length w \<and> length w \<le> 4 \<and> list_all is_letter w}"
proof (rule set_eqI, rule iffI)
  fix w assume "w \<in> lang True (Rep (Range CHR ''a'' CHR ''z'') 1 4)"
  then obtain n where n: "1 \<le> n" "n \<le> 4"
    and w: "w \<in> lang_pow {[c] | c. class_matches True CHR ''a'' CHR ''z'' c} n" by auto
  from lang_pow_class [OF w] have "length w = n" "list_all (class_matches True CHR ''a'' CHR ''z'') w"
    by simp_all
  with n show "w \<in> {w. 1 \<le> length w \<and> length w \<le> 4 \<and> list_all is_letter w}"
    by (auto simp: list_all_iff class_letter)
next
  fix w assume "w \<in> {w. 1 \<le> length w \<and> length w \<le> 4 \<and> list_all is_letter w}"
  then have len: "1 \<le> length w" "length w \<le> 4" and "list_all is_letter w" by auto
  then have "list_all (class_matches True CHR ''a'' CHR ''z'') w"
    by (auto simp: list_all_iff letter_class)
  from class_lang_pow [OF this] len
  show "w \<in> lang True (Rep (Range CHR ''a'' CHR ''z'') 1 4)" by auto
qed

lemma lang_unit:
  "lang True UNIT_ALT = {w. map to_upper w \<in> set (map (map to_upper) UNIT_TOKENS)}"
  unfolding UNIT_ALT_def UNIT_TOKENS_def lang.simps canonicalize_def by auto

lemma lang_underscore: "lang True (Lit ''_'') = {''_''}"
proof (rule set_eqI, rule iffI)
  fix w assume "w \<in> lang True (Lit ''_'')"
  then have "map (canonicalize True) w = map (canonicalize True) ''_''" by simp
  from underscore_only [OF this] show "w \<in> {''_''}" by simp
next
  fix w :: string assume "w \<in> {''_''}"
  then show "w \<in> lang True (Lit ''_'')" by simp
qed

lemma micro_test_iff:
  "micro_test k \<longleftrightarrow>
     (\<exists>abbr unit. k = abbr @ ''_'' @ unit \<and> 1 \<le> length abbr \<and> length abbr \<le> 4
        \<and> list_all is_letter abbr \<and> map to_upper unit \<in> set (map (map to_upper) UNIT_TOKENS))"
proof -
  have "micro_test k \<longleftrightarrow> k \<in> lang True MICRO_RE"
    by (simp add: micro_test_def rx_test_lang)
  also have "\<dots> \<longleftrightarrow> (\<exists>a b c. k = a @ b @ c
      \<and> a \<in> lang True (Rep (Range CHR ''a'' CHR ''z'') 1 4) \<and> b \<in> lang True (Lit ''_'')
      \<and> c \<in> lang True UNIT_ALT)"
    unfolding MICRO_RE_def lang.simps(4) by blast
  also have "\<dots> \<longleftrightarrow> (\<exists>abbr unit. k = abbr @ ''_'' @ unit \<and> 1 \<le> length abbr \<and> length abbr \<le> 4
        \<and> list_all is_letter abbr \<and> map to_upper unit \<in> set (map (map to_upper) UNIT_TOKENS))"
    unfolding lang_abbr lang_unit lang_underscore by blast
  finally show ?thesis .
qed

section \<open>What the sanitizer emits\<close>

lemma set_prop_subset: "set (set_prop k v ps) \<subseteq> insert (k, v) (set ps)"
  by (induction ps) (auto split: if_splits)

lemma map_of_set_prop: "map_of (set_prop k v ps) = (map_of ps)(k \<mapsto> v)"
  by (induction ps) (auto simp: fun_eq_iff)

lemma fields_ok_set_prop:
  "fields_ok cleaned \<Longrightarrow> field_ok k v \<Longrightarrow> fields_ok (set_prop k v cleaned)"
  using set_prop_subset [of k v cleaned] by (auto simp: fields_ok_def list_all_iff)

lemma fields_ok_copy_string:
  "fields_ok cleaned \<Longrightarrow> k \<in> {''qty'', ''n''} \<Longrightarrow> fields_ok (copy_known TString k item cleaned)"
  by (auto simp: copy_known_def field_ok_def split: option.splits intro!: fields_ok_set_prop)

lemma fields_ok_copy_number:
  "fields_ok cleaned \<Longrightarrow> k \<in> {''cal'', ''p'', ''c'', ''f'', ''fib''} \<Longrightarrow>
   fields_ok (copy_known TNumber k item cleaned)"
  by (auto simp: copy_known_def field_ok_def split: option.splits intro!: fields_ok_set_prop)

lemma fields_ok_known_copies: "fields_ok (known_copies item)"
  unfolding known_copies_def
  by (intro fields_ok_copy_number fields_ok_copy_string) (simp_all add: fields_ok_def)

lemma fields_ok_copy_micronutrients:
  "fields_ok cleaned \<Longrightarrow> fields_ok (copy_micronutrients es cleaned)"
proof (induction es arbitrary: cleaned)
  case Nil
  then show ?case by simp
next
  case (Cons e es)
  obtain k v where e: "e = (k, v)" by (cases e)
  show ?case
    unfolding e copy_micronutrients.simps
    by (rule Cons.IH) (auto simp: field_ok_def intro: fields_ok_set_prop Cons.prems)
qed

lemma fields_ok_clean_item: "clean_item item = Inr cleaned \<Longrightarrow> fields_ok cleaned"
  by (auto simp: clean_item_def fields_ok_copy_micronutrients fields_ok_known_copies split: if_splits)

lemma map_items_nth:
  "map_items items = Inr out \<Longrightarrow>
   length out = length items \<and> (\<forall>i < length items. clean_item (items ! i) = Inr (out ! i))"
proof (induction items arbitrary: out)
  case Nil
  then show ?case by simp
next
  case (Cons item rest)
  from Cons.prems obtain cleaned cs where
    c: "clean_item item = Inr cleaned" and r: "map_items rest = Inr cs" and o: "out = cleaned # cs"
    by (auto split: sum.splits)
  from Cons.IH [OF r] c o show ?case by (auto simp: nth_Cons split: nat.splits)
qed

lemma map_items_total:
  "JNull \<notin> set items \<Longrightarrow> \<exists>out. map_items items = Inr out"
  by (induction items) (auto simp: clean_item_def)

lemma sanitize_cases:
  assumes "sanitize parsed = Inr out"
  shows "(\<exists>items. get_prop parsed ''items'' = Some (JArr items) \<and> map_items items = Inr out) \<or> out = []"
  using assms by (auto simp: sanitize_def split: if_splits option.splits json.splits)

lemma sanitize_field_ok:
  assumes "sanitize parsed = Inr out" and "cleaned \<in> set out" and "(k, v) \<in> set cleaned"
  shows "field_ok k v"
proof -
  from sanitize_cases [OF assms(1)] assms(2)
  obtain items where m: "map_items items = Inr out" by auto
  from assms(2) obtain i where i: "i < length out" "out ! i = cleaned"
    by (auto simp: in_set_conv_nth)
  with map_items_nth [OF m] have "clean_item (items ! i) = Inr cleaned" by auto
  from fields_ok_clean_item [OF this] assms(3) show ?thesis
    by (auto simp: fields_ok_def list_all_iff)
qed

text \<open>
  C1. Every field of every item the sanitize step emits is one of the seven known keys
  with its declared type (\<^verbatim>\<open>qty\<close> and \<^verbatim>\<open>n\<close> a string, the other five a number), or a
  key accepted by the pattern \<^verbatim>\<open>/^[a-z]{1,4}_(mg|mcg|iu|g|mgdL|mmolL)$/i\<close> with a
  number; nothing else is in the output.
\<close>

theorem sanitized_fields_valid:
  assumes "sanitize parsed = Inr out" and "cleaned \<in> set out" and "(k, v) \<in> set cleaned"
  shows "(k \<in> {''qty'', ''n''} \<and> typeof (Some v) = TString)
       \<or> (k \<in> {''cal'', ''p'', ''c'', ''f'', ''fib''} \<and> typeof (Some v) = TNumber)
       \<or> (micro_test k \<and> typeof (Some v) = TNumber)"
  using sanitize_field_ok [OF assms] by (simp add: field_ok_def)

theorem sanitized_fields_valid_witness:
  "sanitize (JObj [(''items'', JArr [JObj [(''qty'', JStr ''2 slices''), (''n'', JStr ''toast''),
       (''cal'', JNum 160), (''p'', JNum 8), (''c'', JNum 30), (''f'', JNum 2), (''k_mg'', JNum 200),
       (''notes'', JStr ''great'')]])])
     = Inr [[(''qty'', JStr ''2 slices''), (''n'', JStr ''toast''), (''cal'', JNum 160),
             (''p'', JNum 8), (''c'', JNum 30), (''f'', JNum 2), (''k_mg'', JNum 200)]]
   \<and> micro_test ''k_mg''"
proof -
  let ?parsed = "JObj [(''items'', JArr [JObj [(''qty'', JStr ''2 slices''), (''n'', JStr ''toast''),
       (''cal'', JNum 160), (''p'', JNum 8), (''c'', JNum 30), (''f'', JNum 2), (''k_mg'', JNum 200),
       (''notes'', JStr ''great'')]])]"
  let ?cleaned = "[(''qty'', JStr ''2 slices''), (''n'', JStr ''toast''), (''cal'', JNum 160),
             (''p'', JNum 8), (''c'', JNum 30), (''f'', JNum 2), (''k_mg'', JNum 200)]"
  have run: "sanitize ?parsed = Inr [?cleaned]" by code_simp
  have "?cleaned \<in> set [?cleaned]" "(''k_mg'', JNum 200) \<in> set ?cleaned" by simp_all
  from sanitized_fields_valid [OF run this] have "micro_test ''k_mg''" by simp
  with run show ?thesis by simp
qed

section \<open>Known keys of a cleaned item\<close>

lemma sanitize_items:
  "get_prop parsed ''items'' = Some (JArr items) \<Longrightarrow> sanitize parsed = map_items items"
  by (auto simp: sanitize_def)

lemma map_of_copy_known:
  "t \<noteq> TUndefined \<Longrightarrow> map_of (copy_known t k item cleaned) k' =
     (if k' = k \<and> typeof (get_prop item k) = t then get_prop item k else map_of cleaned k')"
  by (auto simp: copy_known_def map_of_set_prop split: option.splits)

lemma map_of_known_copies:
  "k \<in> set KNOWN_KEYS \<Longrightarrow>
   map_of (known_copies item) k =
     (if typeof (get_prop item k) = declared_type k then get_prop item k else None)"
  by (auto simp: known_copies_def map_of_copy_known KNOWN_KEYS_def declared_type_def)

lemma map_of_copy_micronutrients:
  "k \<in> set KNOWN_KEYS \<Longrightarrow> map_of (copy_micronutrients es cleaned) k = map_of cleaned k"
proof (induction es arbitrary: cleaned)
  case Nil
  then show ?case by simp
next
  case (Cons e es)
  obtain k' v where e: "e = (k', v)" by (cases e)
  from Cons show ?case unfolding e by (auto simp: map_of_set_prop)
qed

lemma clean_item_known:
  assumes "clean_item item = Inr cleaned" and "k \<in> set KNOWN_KEYS"
  shows "map_of cleaned k =
     (if typeof (get_prop item k) = declared_type k then get_prop item k else None)"
  using assms
  by (auto simp: clean_item_def map_of_copy_micronutrients map_of_known_copies split: if_splits)

text \<open>
  C7. A known field whose value has the wrong type (for instance \<^verbatim>\<open>cal\<close> holding the
  string \<^verbatim>\<open>"160"\<close>) is absent from the sanitized item at the same position: it is
  neither copied nor coerced.
\<close>

theorem wrong_type_omitted:
  assumes "sanitize parsed = Inr out"
    and "get_prop parsed ''items'' = Some (JArr items)"
    and "i < length items"
    and "k \<in> set KNOWN_KEYS"
    and "get_prop (items ! i) k = Some v"
    and "typeof (Some v) \<noteq> declared_type k"
  shows "i < length out \<and> map_of (out ! i) k = None"
proof -
  from sanitize_items [OF assms(2)] assms(1) have m: "map_items items = Inr out"
    by simp
  from map_items_nth [OF m] assms(3)
  have len: "i < length out" and c: "clean_item (items ! i) = Inr (out ! i)" by auto
  from clean_item_known [OF c assms(4)] assms(5,6) len show ?thesis by simp
qed

theorem wrong_type_omitted_witness:
  "sanitize (JObj [(''items'', JArr [JObj [(''n'', JStr ''toast''), (''cal'', JStr ''160'')]])])
     = Inr [[(''n'', JStr ''toast'')]]
   \<and> map_of ([[(''n'', JStr ''toast'')]] ! 0) ''cal'' = None"
proof -
  let ?item = "JObj [(''n'', JStr ''toast''), (''cal'', JStr ''160'')]"
  have run: "sanitize (JObj [(''items'', JArr [?item])]) = Inr [[(''n'', JStr ''toast'')]]"
    by code_simp
  have h: "get_prop (JObj [(''items'', JArr [?item])]) ''items'' = Some (JArr [?item])"
    "0 < length [?item]" "''cal'' \<in> set KNOWN_KEYS"
    "get_prop ([?item] ! 0) ''cal'' = Some (JStr ''160'')"
    "typeof (Some (JStr ''160'')) \<noteq> declared_type ''cal''"
    by (simp_all add: KNOWN_KEYS_def declared_type_def)
  from wrong_type_omitted [OF run h] run show ?thesis by simp
qed

section \<open>Micronutrient keys\<close>

text \<open>
  C8, as stated, fails: the pattern carries the \<^verbatim>\<open>i\<close> flag, so a key with upper-case
  letters is kept.
\<close>

theorem uppercase_key_kept:
  "sanitize (JObj [(''items'', JArr [JObj [(''FE_mg'', JNum 3)]])]) = Inr [[(''FE_mg'', JNum 3)]]
   \<and> \<not> spec_micro_key ''FE_mg'' \<and> spec_micro_key ''fe_mg''"
  by code_simp

text \<open>
  C8, amended. Every key of the sanitized output that is not one of the seven known keys
  is one to four ASCII letters of either case, an underscore, and one of the unit tokens
  \<^verbatim>\<open>mg\<close>, \<^verbatim>\<open>mcg\<close>, \<^verbatim>\<open>iu\<close>, \<^verbatim>\<open>g\<close>, \<^verbatim>\<open>mgdL\<close>, \<^verbatim>\<open>mmolL\<close> compared without regard to case.
\<close>

theorem micronutrient_key_shape:
  assumes "sanitize parsed = Inr out" and "cleaned \<in> set out" and "(k, v) \<in> set cleaned"
    and "k \<notin> set KNOWN_KEYS"
  shows "\<exists>abbr unit. k = abbr @ ''_'' @ unit \<and> 1 \<le> length abbr \<and> length abbr \<le> 4
           \<and> list_all is_letter abbr \<and> map to_upper unit \<in> set (map (map to_upper) UNIT_TOKENS)"
proof -
  from sanitize_field_ok [OF assms(1,2,3)] assms(4) have "micro_test k"
    by (auto simp: field_ok_def KNOWN_KEYS_def)
  then show ?thesis by (simp only: micro_test_iff)
qed

theorem micronutrient_key_shape_witness:
  "sanitize (JObj [(''items'', JArr [JObj [(''Fe_MG'', JNum 3)]])]) = Inr [[(''Fe_MG'', JNum 3)]]
   \<and> (\<exists>abbr unit. ''Fe_MG'' = abbr @ ''_'' @ unit \<and> 1 \<le> length abbr \<and> length abbr \<le> 4
           \<and> list_all is_letter abbr \<and> map to_upper unit \<in> set (map (map to_upper) UNIT_TOKENS))"
proof -
  have run: "sanitize (JObj [(''items'', JArr [JObj [(''Fe_MG'', JNum 3)]])]) = Inr [[(''Fe_MG'', JNum 3)]]"
    by code_simp
  have h: "[(''Fe_MG'', JNum 3)] \<in> set [[(''Fe_MG'', JNum 3)]]"
    "(''Fe_MG'', JNum 3) \<in> set [(''Fe_MG'', JNum 3)]" "''Fe_MG'' \<notin> set KNOWN_KEYS"
    by (simp_all add: KNOWN_KEYS_def)
  from micronutrient_key_shape [OF run h] run show ?thesis by simp
qed

section \<open>Length of the sanitized list\<close>

text \<open>
  C2. The output should have one item per input item. A null element of \<^verbatim>\<open>items\<close>
  makes the callback throw at \<^verbatim>\<open>item.qty\<close>, so no list is produced at all and the
  handler answers with status 500.
\<close>

theorem null_item_aborts:
  "sanitize (JObj [(''items'', JArr [JObj [(''n'', JStr ''tea'')], JNull])]) = Inl (null_read ''qty'')
   \<and> respond \<lparr>OPENAI_API_KEY = key, transcriptions_create = t, chat_completions_create = c,
        JSON_parse = (\<lambda>raw. Some (JObj [(''items'', JArr [JObj [(''n'', JStr ''tea'')], JNull])]))\<rparr> raw
     = error_response 500 (''Cannot read properties of null (reading '' @ [CHR 0x27] @ ''qty'' @ [CHR 0x27] @ '')'')"
  by (simp add: respond_def parse_or_empty_def sanitize_def clean_item_def catch_handler_def null_read_def)

text \<open>Without a null element the list is produced and keeps its length.\<close>

lemma sanitize_length:
  assumes "get_prop parsed ''items'' = Some (JArr items)" and "JNull \<notin> set items"
  shows "\<exists>out. sanitize parsed = Inr out \<and> length out = length items"
proof -
  from map_items_total [OF assms(2)] obtain out where m: "map_items items = Inr out" ..
  from sanitize_items [OF assms(1)] m have "sanitize parsed = Inr out" by simp
  with map_items_nth [OF m] show ?thesis by simp
qed

section \<open>The handler's guards\<close>

lemma serve_accepted:
  assumes "req_method req \<noteq> ''OPTIONS''"
    and "OPENAI_API_KEY e = Some key" and "key \<noteq> []"
    and "str_includes (or_else (req_content_type req) []) ''multipart/form-data''"
    and "req_formData req = Inr formData"
    and "map_of formData ''file'' = Some (FFile file)"
  shows "serve e req =
     (case upstream e file of
        (Inl error, calls) \<Rightarrow> (catch_handler error, calls)
      | (Inr raw, calls) \<Rightarrow> (respond e raw, calls))"
  using assms by (simp add: serve_def or_else_def)

lemma respond_parse_failure:
  "JSON_parse e raw = None \<Longrightarrow>
   respond e raw = \<lparr>res_status = 200, res_body = Some (JObj [(''items'', JArr [])])\<rparr>"
  by (simp add: respond_def parse_or_empty_def sanitize_def)

text \<open>
  C3. When the request has passed the guards, both upstream calls have returned and the
  string obtained from the structuring step does not parse as JSON, the handler answers
  with status 200 and the body \<^verbatim>\<open>{"items": []}\<close>; the failure is not reported.
\<close>

theorem parse_failure_gives_empty_items:
  assumes "req_method req \<noteq> ''OPTIONS''"
    and "OPENAI_API_KEY e = Some key" and "key \<noteq> []"
    and "str_includes (or_else (req_content_type req) []) ''multipart/form-data''"
    and "req_formData req = Inr formData"
    and "map_of formData ''file'' = Some (FFile file)"
    and "upstream e file = (Inr raw, calls)"
    and "JSON_parse e raw = None"
  shows "serve e req = (\<lparr>res_status = 200, res_body = Some (JObj [(''items'', JArr [])])\<rparr>, calls)"
  using serve_accepted [OF assms(1-6)] assms(7) respond_parse_failure [OF assms(8)] by simp

theorem parse_failure_gives_empty_items_witness:
  "serve \<lparr>OPENAI_API_KEY = Some ''sk'', transcriptions_create = (\<lambda>file. Inr (Some ''two eggs'')),
          chat_completions_create = (\<lambda>prompt. Inr (Some ''Sorry, I cannot'')),
          JSON_parse = (\<lambda>raw. None)\<rparr>
         \<lparr>req_method = ''POST'', req_content_type = Some ''multipart/form-data; boundary=x'',
          req_formData = Inr [(''file'', FFile ''RIFF'')]\<rparr>
   = (\<lparr>res_status = 200, res_body = Some (JObj [(''items'', JArr [])])\<rparr>,
      [Transcription ''RIFF'', ChatCompletion (userPrompt ''two eggs'')])"
proof -
  let ?e = "\<lparr>OPENAI_API_KEY = Some ''sk'', transcriptions_create = (\<lambda>file. Inr (Some ''two eggs'')),
          chat_completions_create = (\<lambda>prompt. Inr (Some ''Sorry, I cannot'')),
          JSON_parse = (\<lambda>raw. None)\<rparr>"
  let ?req = "\<lparr>req_method = ''POST'', req_content_type = Some ''multipart/form-data; boundary=x'',
          req_formData = Inr [(''file'', FFile ''RIFF'')]\<rparr>"
  have h: "req_method ?req \<noteq> ''OPTIONS''" "OPENAI_API_KEY ?e = Some ''sk''" "''sk'' \<noteq> []"
    "str_includes (or_else (req_content_type ?req) []) ''multipart/form-data''"
    "req_formData ?req = Inr [(''file'', FFile ''RIFF'')]"
    "map_of [(''file'', FFile ''RIFF'')] ''file'' = Some (FFile ''RIFF'')"
    "upstream ?e ''RIFF'' = (Inr ''Sorry, I cannot'', [Transcription ''RIFF'', ChatCompletion (userPrompt ''two eggs'')])"
    "JSON_parse ?e ''Sorry, I cannot'' = None"
    by (simp_all add: or_else_def upstream_def)
  from parse_failure_gives_empty_items [OF h] show ?thesis .
qed

section \<open>Faults\<close>

text \<open>
  C4, as stated, fails for a CORS preflight: the \<^verbatim>\<open>OPTIONS\<close> branch answers before the
  credential is looked at.
\<close>

theorem preflight_without_credential:
  "fst (serve \<lparr>OPENAI_API_KEY = None, transcriptions_create = (\<lambda>file. Inr None),
               chat_completions_create = (\<lambda>prompt. Inr None), JSON_parse = (\<lambda>raw. None)\<rparr>
              \<lparr>req_method = ''OPTIONS'', req_content_type = None, req_formData = Inr []\<rparr>)
   = \<lparr>res_status = 200, res_body = None\<rparr>"
  by (simp add: serve_def)

text \<open>
  C4, amended. For every request other than a preflight, if the credential is absent, or
  the request passes the guards and the transcription call or the structuring call
  throws, the answer has status 500 and the body \<^verbatim>\<open>{"error": message}\<close>, which holds
  no items.
\<close>

theorem fault_is_server_error:
  assumes "req_method req \<noteq> ''OPTIONS''"
    and "OPENAI_API_KEY e = None
       \<or> (\<exists>key formData file error.
            OPENAI_API_KEY e = Some key \<and> key \<noteq> []
          \<and> str_includes (or_else (req_content_type req) []) ''multipart/form-data''
          \<and> req_formData req = Inr formData
          \<and> map_of formData ''file'' = Some (FFile file)
          \<and> (transcriptions_create e file = Inl error
             \<or> (\<exists>text. transcriptions_create e file = Inr text
                  \<and> chat_completions_create e (userPrompt (or_else text [])) = Inl error)))"
  shows "\<exists>message. fst (serve e req)
           = \<lparr>res_status = 500, res_body = Some (JObj [(''error'', JStr message)])\<rparr>"
  using assms(2)
proof (elim disjE exE conjE)
  assume "OPENAI_API_KEY e = None"
  with assms(1) have "fst (serve e req) = catch_handler (Error ''OPENAI_API_KEY is not set'')"
    by (simp add: serve_def or_else_def)
  then show ?thesis by (simp add: catch_handler_def error_response_def)
next
  fix key formData audio error
  assume h: "OPENAI_API_KEY e = Some key" "key \<noteq> []"
    "str_includes (or_else (req_content_type req) []) ''multipart/form-data''"
    "req_formData req = Inr formData" "map_of formData ''file'' = Some (FFile audio)"
  assume "transcriptions_create e audio = Inl error"
  then have "fst (upstream e audio) = Inl error" by (simp add: upstream_def)
  with serve_accepted [OF assms(1) h] have "fst (serve e req) = catch_handler error"
    by (cases "upstream e audio") simp
  then show ?thesis by (simp add: catch_handler_def error_response_def)
next
  fix key formData audio error transcript
  assume h: "OPENAI_API_KEY e = Some key" "key \<noteq> []"
    "str_includes (or_else (req_content_type req) []) ''multipart/form-data''"
    "req_formData req = Inr formData" "map_of formData ''file'' = Some (FFile audio)"
  assume "transcriptions_create e audio = Inr transcript"
    "chat_completions_create e (userPrompt (or_else transcript [])) = Inl error"
  then have "fst (upstream e audio) = Inl error" by (simp add: upstream_def)
  with serve_accepted [OF assms(1) h] have "fst (serve e req) = catch_handler error"
    by (cases "upstream e audio") simp
  then show ?thesis by (simp add: catch_handler_def error_response_def)
qed

theorem fault_is_server_error_witness:
  "\<exists>message. fst (serve \<lparr>OPENAI_API_KEY = Some ''sk'',
                 transcriptions_create = (\<lambda>file. Inl (Error ''Connection error.'')),
                 chat_completions_create = (\<lambda>prompt. Inr None), JSON_parse = (\<lambda>raw. None)\<rparr>
              \<lparr>req_method = ''POST'', req_content_type = Some ''multipart/form-data; boundary=x'',
               req_formData = Inr [(''file'', FFile ''RIFF'')]\<rparr>)
     = \<lparr>res_status = 500, res_body = Some (JObj [(''error'', JStr message)])\<rparr>"
proof -
  let ?e = "\<lparr>OPENAI_API_KEY = Some ''sk'',
                 transcriptions_create = (\<lambda>file. Inl (Error ''Connection error.'')),
                 chat_completions_create = (\<lambda>prompt. Inr None), JSON_parse = (\<lambda>raw. None)\<rparr>"
  let ?req = "\<lparr>req_method = ''POST'', req_content_type = Some ''multipart/form-data; boundary=x'',
               req_formData = Inr [(''file'', FFile ''RIFF'')]\<rparr>"
  have m: "req_method ?req \<noteq> ''OPTIONS''" by simp
  have "OPENAI_API_KEY ?e = Some ''sk'' \<and> ''sk'' \<noteq> []
          \<and> str_includes (or_else (req_content_type ?req) []) ''multipart/form-data''
          \<and> req_formData ?req = Inr [(''file'', FFile ''RIFF'')]
          \<and> map_of [(''file'', FFile ''RIFF'')] ''file'' = Some (FFile ''RIFF'')
          \<and> (transcriptions_create ?e ''RIFF'' = Inl (Error ''Connection error.'')
             \<or> (\<exists>text. transcriptions_create ?e ''RIFF'' = Inr text
                  \<and> chat_completions_create ?e (userPrompt (or_else text [])) = Inl (Error ''Connection error.'')))"
    by (simp add: or_else_def)
  then have f: "OPENAI_API_KEY ?e = None
       \<or> (\<exists>key formData file error.
            OPENAI_API_KEY ?e = Some key \<and> key \<noteq> []
          \<and> str_includes (or_else (req_content_type ?req) []) ''multipart/form-data''
          \<and> req_formData ?req = Inr formData
          \<and> map_of formData ''file'' = Some (FFile file)
          \<and> (transcriptions_create ?e file = Inl error
             \<or> (\<exists>text. transcriptions_create ?e file = Inr text
                  \<and> chat_completions_create ?e (userPrompt (or_else text [])) = Inl error)))"
    by blast
  from fault_is_server_error [OF m f] show ?thesis .
qed

section \<open>Malformed requests\<close>

text \<open>
  C5, as stated, fails when the credential is absent: the credential is checked before
  the content type, so a request that is not multipart is answered with status 500.
\<close>

theorem not_multipart_without_credential:
  "serve \<lparr>OPENAI_API_KEY = None, transcriptions_create = (\<lambda>file. Inr None),
          chat_completions_create = (\<lambda>prompt. Inr None), JSON_parse = (\<lambda>raw. None)\<rparr>
         \<lparr>req_method = ''POST'', req_content_type = Some ''application/json'', req_formData = Inr []\<rparr>
   = (\<lparr>res_status = 500, res_body = Some (JObj [(''error'', JStr ''OPENAI_API_KEY is not set'')])\<rparr>, [])"
  by (simp add: serve_def or_else_def catch_handler_def error_response_def)

text \<open>
  C5, amended. For every request other than a preflight, with the credential set, whose
  content type does not contain \<^verbatim>\<open>multipart/form-data\<close>, the answer has status 400 and
  the body \<^verbatim>\<open>{"error": "Expected multipart/form-data with a 'file' field"}\<close>, and no
  upstream call is made.
\<close>

theorem not_multipart_rejected:
  assumes "req_method req \<noteq> ''OPTIONS''"
    and "OPENAI_API_KEY e = Some key" and "key \<noteq> []"
    and "\<not> str_includes (or_else (req_content_type req) []) ''multipart/form-data''"
  shows "serve e req
       = (\<lparr>res_status = 400, res_body = Some (JObj [(''error'', JStr NOT_MULTIPART)])\<rparr>, [])"
  using assms by (simp add: serve_def or_else_def error_response_def)

theorem not_multipart_rejected_witness:
  "serve \<lparr>OPENAI_API_KEY = Some ''sk'', transcriptions_create = (\<lambda>file. Inr None),
          chat_completions_create = (\<lambda>prompt. Inr None), JSON_parse = (\<lambda>raw. None)\<rparr>
         \<lparr>req_method = ''POST'', req_content_type = Some ''application/json'', req_formData = Inr []\<rparr>
   = (\<lparr>res_status = 400, res_body = Some (JObj [(''error'', JStr NOT_MULTIPART)])\<rparr>, [])"
proof -
  let ?e = "\<lparr>OPENAI_API_KEY = Some ''sk'', transcriptions_create = (\<lambda>file. Inr None),
          chat_completions_create = (\<lambda>prompt. Inr None), JSON_parse = (\<lambda>raw. None)\<rparr>"
  let ?req = "\<lparr>req_method = ''POST'', req_content_type = Some ''application/json'', req_formData = Inr []\<rparr>"
  have h: "req_method ?req \<noteq> ''OPTIONS''" "OPENAI_API_KEY ?e = Some ''sk''" "''sk'' \<noteq> []"
    "\<not> str_includes (or_else (req_content_type ?req) []) ''multipart/form-data''"
    by (simp_all add: or_else_def)
  from not_multipart_rejected [OF h] show ?thesis .
qed







section \<open>Meal totals are sums over the items\<close>

text \<open>The addition rounds as the engine's does.\<close>

lemma dadd_rounds_tenths:
  "dadd (Finite (3602879701896397 / 2 ^ 55)) (Finite (3602879701896397 / 2 ^ 54))
     = Finite (1351079888211149 / 2 ^ 52)"
  by code_simp

lemma dadd_absorbs_one: "dadd (Finite (2 ^ 53)) (Finite 1) = Finite (2 ^ 53)"
  by code_simp

lemma dadd_example:
  "dadd (dadd (Finite 0) (Finite 100)) (Finite 200) = Finite 300"
  "dadd (dadd (Finite 0) (Finite 5)) (Finite 10) = Finite 15"
  "dadd (dadd (Finite 0) (Finite 0)) (Finite 0) = Finite 0"
  by code_simp+

lemma foldl_add_item:
  "total_calories (foldl (add_item assign) acc list)
     = foldl dadd (total_calories acc) (map (\<lambda>it. number_or_0 (item_cal it)) list)
   \<and> protein (foldl (add_item assign) acc list)
     = foldl dadd (protein acc) (map (\<lambda>it. number_or_0 (item_p it)) list)
   \<and> carbs (foldl (add_item assign) acc list)
     = foldl dadd (carbs acc) (map (\<lambda>it. number_or_0 (item_c it)) list)
   \<and> fat (foldl (add_item assign) acc list)
     = foldl dadd (fat acc) (map (\<lambda>it. number_or_0 (item_f it)) list)
   \<and> fiber (foldl (add_item assign) acc list)
     = foldl dadd (fiber acc) (map (\<lambda>it. number_or_0 (item_fib it)) list)"
proof (induction list arbitrary: acc)
  case Nil
  then show ?case by simp
next
  case (Cons it list)
  have step: "total_calories (add_item assign acc it) = dadd (total_calories acc) (number_or_0 (item_cal it))"
    "protein (add_item assign acc it) = dadd (protein acc) (number_or_0 (item_p it))"
    "carbs (add_item assign acc it) = dadd (carbs acc) (number_or_0 (item_c it))"
    "fat (add_item assign acc it) = dadd (fat acc) (number_or_0 (item_f it))"
    "fiber (add_item assign acc it) = dadd (fiber acc) (number_or_0 (item_fib it))"
    by (simp_all add: add_item_def)
  from Cons.IH [of "add_item assign acc it"] show ?case
    by (simp only: foldl_Cons step list.map)
qed

text \<open>
  A binary64 value is its own rounding, so adding the 0 of an absent macro leaves a finite
  total as it is.
\<close>

lemma pow2_pos: "0 < pow2 e"
  by (simp add: pow2_def)

lemma round_half_even_int: "round_half_even (of_int n) = n"
  by (simp add: round_half_even_def)

lemma round_double_representable:
  assumes "is_double x"
  shows "round_double x = Finite x"
proof (cases "x = 0")
  case True
  then show ?thesis by (simp add: round_double_def)
next
  case False
  define ulp where "ulp = pow2 (max (floor_log2 x) (- 1022) - 52)"
  from assms False have small: "\<bar>x\<bar> < pow2 1024" and int: "of_int \<lfloor>x / ulp\<rfloor> = x / ulp"
    by (simp_all add: is_double_def ulp_def Let_def)
  have pos: "0 < ulp" unfolding ulp_def by (rule pow2_pos)
  have "round_half_even (x / ulp) = \<lfloor>x / ulp\<rfloor>"
    using round_half_even_int [of "\<lfloor>x / ulp\<rfloor>"] int by simp
  then have "of_int (round_half_even (x / ulp)) * ulp = (x / ulp) * ulp"
    by (simp only: int)
  with pos have y: "of_int (round_half_even (x / ulp)) * ulp = x" by simp
  show ?thesis
    using False small
    by (simp only: round_double_def Let_def ulp_def [symmetric] y if_False) simp
qed

lemma dadd_zero_right: "is_double x \<Longrightarrow> dadd (Finite x) (Finite 0) = Finite x"
  by (simp add: round_double_representable)

lemma is_double_examples: "is_double 100 \<and> is_double (3602879701896397 / 2 ^ 55) \<and> \<not> is_double (1 / 10)"
  by code_simp

text \<open>
  C9. Each macro total of \<^verbatim>\<open>computeTotals\<close> is the sum, added from 0 in list order
  with the addition of JavaScript numbers, of that macro over the items, an absent macro
  counting as 0; two items with \<^verbatim>\<open>cal:100, p:5\<close> and \<^verbatim>\<open>cal:200, p:10\<close> give
  \<^verbatim>\<open>total_calories\<close> 300 and \<^verbatim>\<open>protein\<close> 15, and 0 for the macros they lack.
\<close>

theorem computeTotals_sums:
  "total_calories (computeTotals assign object list)
     = foldl dadd (Finite 0) (map (\<lambda>it. number_or_0 (item_cal it)) list)
   \<and> protein (computeTotals assign object list)
     = foldl dadd (Finite 0) (map (\<lambda>it. number_or_0 (item_p it)) list)
   \<and> carbs (computeTotals assign object list)
     = foldl dadd (Finite 0) (map (\<lambda>it. number_or_0 (item_c it)) list)
   \<and> fat (computeTotals assign object list)
     = foldl dadd (Finite 0) (map (\<lambda>it. number_or_0 (item_f it)) list)
   \<and> fiber (computeTotals assign object list)
     = foldl dadd (Finite 0) (map (\<lambda>it. number_or_0 (item_fib it)) list)
   \<and> number_or_0 None = Finite 0
   \<and> total_calories (computeTotals assign object
        [\<lparr>item_qty = q1, item_n = n1, item_cal = Some (Finite 100), item_p = Some (Finite 5),
          item_c = None, item_f = None, item_fib = None, item_others = []\<rparr>,
         \<lparr>item_qty = q2, item_n = n2, item_cal = Some (Finite 200), item_p = Some (Finite 10),
          item_c = None, item_f = None, item_fib = None, item_others = []\<rparr>]) = Finite 300
   \<and> protein (computeTotals assign object
        [\<lparr>item_qty = q1, item_n = n1, item_cal = Some (Finite 100), item_p = Some (Finite 5),
          item_c = None, item_f = None, item_fib = None, item_others = []\<rparr>,
         \<lparr>item_qty = q2, item_n = n2, item_cal = Some (Finite 200), item_p = Some (Finite 10),
          item_c = None, item_f = None, item_fib = None, item_others = []\<rparr>]) = Finite 15
   \<and> carbs (computeTotals assign object
        [\<lparr>item_qty = q1, item_n = n1, item_cal = Some (Finite 100), item_p = Some (Finite 5),
          item_c = None, item_f = None, item_fib = None, item_others = []\<rparr>,
         \<lparr>item_qty = q2, item_n = n2, item_cal = Some (Finite 200), item_p = Some (Finite 10),
          item_c = None, item_f = None, item_fib = None, item_others = []\<rparr>]) = Finite 0"
proof -
  let ?init = "\<lparr>total_calories = Finite 0, protein = Finite 0, carbs = Finite 0, fat = Finite 0,
        fiber = Finite 0, micronutrients = object\<rparr>"
  have sums: "total_calories (computeTotals assign object xs)
        = foldl dadd (Finite 0) (map (\<lambda>it. number_or_0 (item_cal it)) xs)"
    "protein (computeTotals assign object xs)
        = foldl dadd (Finite 0) (map (\<lambda>it. number_or_0 (item_p it)) xs)"
    "carbs (computeTotals assign object xs)
        = foldl dadd (Finite 0) (map (\<lambda>it. number_or_0 (item_c it)) xs)"
    "fat (computeTotals assign object xs)
        = foldl dadd (Finite 0) (map (\<lambda>it. number_or_0 (item_f it)) xs)"
    "fiber (computeTotals assign object xs)
        = foldl dadd (Finite 0) (map (\<lambda>it. number_or_0 (item_fib it)) xs)" for xs
    using foldl_add_item [of assign ?init xs] by (simp_all add: computeTotals_def)
  have vals: "number_or_0 None = Finite 0" "number_or_0 (Some (Finite 100)) = Finite 100"
    "number_or_0 (Some (Finite 200)) = Finite 200" "number_or_0 (Some (Finite 5)) = Finite 5"
    "number_or_0 (Some (Finite 10)) = Finite 10"
    by (simp_all add: number_or_0_def)
  show ?thesis unfolding sums by (simp add: vals dadd_example del: dadd.simps)
qed

end
